theory Spec2Isabelle
  imports Main "HOL-Library.Word"
begin

section \<open>Go values shared by the adapters\<close>

text \<open>Go's \<^verbatim>\<open>[]byte\<close> and \<^verbatim>\<open>string\<close> are byte sequences; the nil slice and the
  empty slice are both the empty list.\<close>

type_synonym bytes = string

text \<open>An \<^verbatim>\<open>error\<close> value is identified by its message. \<^verbatim>\<open>TypeAssertionError\<close> is the
  runtime error of a failed unchecked type assertion \<^verbatim>\<open>x.(T)\<close>.\<close>

datatype go_error = GoError string | TypeAssertionError

definition errors_New :: "string \<Rightarrow> go_error" where
  "errors_New s = GoError s"

text \<open>The value carried by a panic is an \<^verbatim>\<open>interface{}\<close>: an error, a string, or a value
  of any other dynamic type (an int, a struct, ...).\<close>

datatype panic_value = PanicError go_error | PanicString string | PanicOther nat

section \<open>gorilla: the response recorder\<close>

text \<open>The wrapped \<^verbatim>\<open>http.ResponseWriter\<close> is an interface value. It is modelled by its header
  map, the log of the calls it received (what reaches the real response channel), and the
  result its \<^verbatim>\<open>Write\<close> gives for a byte slice.\<close>

datatype wire_call = WireWriteHeader int | WireWrite bytes

record response_writer =
  rw_header :: "string \<rightharpoonup> string list"
  rw_calls :: "wire_call list"
  rw_result :: "bytes \<Rightarrow> int \<times> go_error option"

definition rw_WriteHeader :: "int \<Rightarrow> response_writer \<Rightarrow> response_writer" where
  "rw_WriteHeader code w = w\<lparr>rw_calls := rw_calls w @ [WireWriteHeader code]\<rparr>"

definition rw_Write :: "bytes \<Rightarrow> response_writer \<Rightarrow> (int \<times> go_error option) \<times> response_writer" where
  "rw_Write b w = (rw_result w b, w\<lparr>rw_calls := rw_calls w @ [WireWrite b]\<rparr>)"

record responseRecorder =
  ResponseWriter :: response_writer
  body :: bytes
  statusCode :: int
  status :: bool
  captureBody :: bool

definition WriteHeader :: "int \<Rightarrow> responseRecorder \<Rightarrow> responseRecorder" where
  "WriteHeader code r =
     (if \<not> status r
      then r\<lparr>status := True, statusCode := code,
             ResponseWriter := rw_WriteHeader code (ResponseWriter r)\<rparr>
      else r)"

definition Write :: "bytes \<Rightarrow> responseRecorder \<Rightarrow> (int \<times> go_error option) \<times> responseRecorder" where
  "Write b r =
     (let r1 = (if captureBody r then r\<lparr>body := body r @ b\<rparr> else r);
          r2 = (if \<not> status r1 then WriteHeader 200 r1 else r1);
          (res, w) = rw_Write b (ResponseWriter r2)
      in (res, r2\<lparr>ResponseWriter := w\<rparr>))"

definition StatusCode :: "responseRecorder \<Rightarrow> int" where
  "StatusCode r = (if statusCode r = 0 then 200 else statusCode r)"

text \<open>The recorder the middleware builds:
  \<^verbatim>\<open>&responseRecorder{ResponseWriter: res, body: &bytes.Buffer{}, captureBody: ...}\<close>.\<close>

definition newRecorder :: "response_writer \<Rightarrow> bool \<Rightarrow> responseRecorder" where
  "newRecorder res capture =
     \<lparr>ResponseWriter = res, body = [], statusCode = 0, status = False, captureBody = capture\<rparr>"

section \<open>Request-scoped context and the error list\<close>

type_synonym uuid = "128 word"

datatype ctxkey = ErrorListCtxKey | CurrentRequestMessageID

text \<open>The value stored under \<^verbatim>\<open>ErrorListCtxKey\<close> is the pointer \<^verbatim>\<open>&errorList\<close>: the address
  of a variable of type \<^verbatim>\<open>[]ATError\<close>.\<close>

datatype ctxval = ErrorListPtr nat | MessageID uuid

type_synonym "context" = "ctxkey \<rightharpoonup> ctxval"

definition WithValue :: "context \<Rightarrow> ctxkey \<Rightarrow> ctxval \<Rightarrow> context" where
  "WithValue ctx k v = ctx(k \<mapsto> v)"

text \<open>Modelled from the spec: the ReportedError record (\<^verbatim>\<open>apt.ATError\<close>) and its constructor
  belong to the root package, which is not among the sources. An entry is identified by the
  error it was built from.\<close>

datatype ATError = ATError go_error

text \<open>The store of the \<^verbatim>\<open>[]ATError\<close> variables, by address.\<close>

type_synonym heap = "nat \<Rightarrow> ATError list"

text \<open>Modelled from the spec: \<^verbatim>\<open>apt.ReportError\<close> of the root package, which is not among the
  sources. It looks the error list up in the context; if absent, the error is dropped with no
  observable effect; if present, it appends a ReportedError. The adapters' own
  \<^verbatim>\<open>ReportError\<close> forwards to it unchanged.\<close>

definition ReportError :: "context \<Rightarrow> go_error \<Rightarrow> heap \<Rightarrow> heap" where
  "ReportError ctx err h =
     (case ctx ErrorListCtxKey of
        Some (ErrorListPtr a) \<Rightarrow> h(a := h a @ [ATError err])
      | _ \<Rightarrow> h)"

section \<open>Request bodies as readers\<close>

text \<open>An \<^verbatim>\<open>io.Reader\<close> delivers its data in chunks, one per \<^verbatim>\<open>Read\<close>, and then either
  \<^verbatim>\<open>io.EOF\<close> (\<open>None\<close>) or a read error. \<^verbatim>\<open>io.ReadAll\<close> reads until \<^verbatim>\<open>io.EOF\<close> or an error
  and returns the data it read together with the error, which is nil after \<^verbatim>\<open>io.EOF\<close>.\<close>

datatype reader = Reader "bytes list" "go_error option"

fun ReadAll_loop :: "bytes \<Rightarrow> bytes list \<Rightarrow> go_error option \<Rightarrow> bytes \<times> go_error option" where
  "ReadAll_loop b [] e = (b, e)"
| "ReadAll_loop b (c # cs) e = ReadAll_loop (b @ c) cs e"

fun ReadAll :: "reader \<Rightarrow> bytes \<times> go_error option" where
  "ReadAll (Reader cs e) = ReadAll_loop [] cs e"

definition NewBuffer :: "bytes \<Rightarrow> reader" where
  "NewBuffer buf = Reader (if buf = [] then [] else [buf]) None"

definition NopCloser :: "reader \<Rightarrow> reader" where
  "NopCloser r = r"

section \<open>Configuration\<close>

record Config =
  Debug :: bool
  ServiceVersion :: string
  ServiceName :: string
  RedactHeaders :: "string list"
  RedactRequestBody :: "string list"
  RedactResponseBody :: "string list"
  Tags :: "string list"
  CaptureRequestBody :: bool
  CaptureResponseBody :: bool

text \<open>\<^verbatim>\<open>apt.Config\<close> has the same fields; both adapters copy them one by one.\<close>

definition getAptConfig :: "Config \<Rightarrow> Config" where
  "getAptConfig config =
     \<lparr>Debug = Debug config,
      ServiceVersion = ServiceVersion config,
      ServiceName = ServiceName config,
      RedactHeaders = RedactHeaders config,
      RedactRequestBody = RedactRequestBody config,
      RedactResponseBody = RedactResponseBody config,
      Tags = Tags config,
      CaptureRequestBody = CaptureRequestBody config,
      CaptureResponseBody = CaptureResponseBody config\<rparr>"

section \<open>The redaction engine\<close>

text \<open>Modelled from the spec: the redaction engine belongs to the root package, which is not
  among the sources. Structured data is a JSON-like tree. The text form is compact JSON:
  no white space, a number kept as its lexeme, a string kept as the bytes between its two
  double quotes. A body outside that form does not parse, and redaction leaves it
  untouched.\<close>

datatype json = JNull | JBool bool | JNum string | JStr string
  | JArr "json list" | JObj "(string \<times> json) list"

definition numchar :: "char \<Rightarrow> bool" where
  "numchar c = (c \<in> set ''0123456789+-.eE'')"

definition quote :: "string \<Rightarrow> string" where
  "quote s = CHR 0x22 # s @ [CHR 0x22]"

fun print_json :: "json \<Rightarrow> string"
and print_elems :: "json list \<Rightarrow> string"
and print_members :: "(string \<times> json) list \<Rightarrow> string"
where
  "print_json JNull = ''null''"
| "print_json (JBool b) = (if b then ''true'' else ''false'')"
| "print_json (JNum s) = s"
| "print_json (JStr s) = quote s"
| "print_json (JArr xs) = (if xs = [] then ''[]'' else CHR ''['' # print_elems xs)"
| "print_json (JObj kvs) = (if kvs = [] then ''{}'' else CHR ''{'' # print_members kvs)"
| "print_elems [] = '']''"
| "print_elems (x # xs) = print_json x @ (if xs = [] then '']'' else CHR '','' # print_elems xs)"
| "print_members [] = ''}''"
| "print_members ((k, v) # kvs) =
     quote k @ CHR '':'' # print_json v @ (if kvs = [] then ''}'' else CHR '','' # print_members kvs)"

fun parse_string :: "string \<Rightarrow> (string \<times> string) option" where
  "parse_string [] = None"
| "parse_string (c # r) =
     (if c = CHR 0x22 then Some ([], r)
      else (case parse_string r of None \<Rightarrow> None | Some (s, r') \<Rightarrow> Some (c # s, r')))"

text \<open>The parser takes fuel; the length of the text is enough (see \<open>parse_json\<close>).\<close>

fun parse_value :: "nat \<Rightarrow> string \<Rightarrow> (json \<times> string) option"
and parse_elems :: "nat \<Rightarrow> string \<Rightarrow> (json list \<times> string) option"
and parse_members :: "nat \<Rightarrow> string \<Rightarrow> ((string \<times> json) list \<times> string) option"
where
  "parse_value 0 s = None"
| "parse_value (Suc n) s =
     (case s of [] \<Rightarrow> None
      | c # r \<Rightarrow>
          if c = CHR 0x22 then
            (case parse_string r of None \<Rightarrow> None | Some (str, r') \<Rightarrow> Some (JStr str, r'))
          else if c = CHR ''['' then
            (if r \<noteq> [] \<and> hd r = CHR '']'' then Some (JArr [], tl r)
             else (case parse_elems n r of None \<Rightarrow> None | Some (xs, r') \<Rightarrow> Some (JArr xs, r')))
          else if c = CHR ''{'' then
            (if r \<noteq> [] \<and> hd r = CHR ''}'' then Some (JObj [], tl r)
             else (case parse_members n r of None \<Rightarrow> None | Some (kvs, r') \<Rightarrow> Some (JObj kvs, r')))
          else if numchar c then Some (JNum (takeWhile numchar s), dropWhile numchar s)
          else if take 4 s = ''null'' then Some (JNull, drop 4 s)
          else if take 4 s = ''true'' then Some (JBool True, drop 4 s)
          else if take 5 s = ''false'' then Some (JBool False, drop 5 s)
          else None)"
| "parse_elems 0 s = None"
| "parse_elems (Suc n) s =
     (case parse_value n s of None \<Rightarrow> None
      | Some (x, r) \<Rightarrow>
          (case r of [] \<Rightarrow> None
           | c # r' \<Rightarrow>
               if c = CHR '']'' then Some ([x], r')
               else if c = CHR '','' then
                 (case parse_elems n r' of None \<Rightarrow> None | Some (xs, r'') \<Rightarrow> Some (x # xs, r''))
               else None))"
| "parse_members 0 s = None"
| "parse_members (Suc n) s =
     (case s of [] \<Rightarrow> None
      | q # s1 \<Rightarrow>
          if q \<noteq> CHR 0x22 then None
          else (case parse_string s1 of None \<Rightarrow> None
                | Some (k, s2) \<Rightarrow>
                    (case s2 of [] \<Rightarrow> None
                     | col # s3 \<Rightarrow>
                         if col \<noteq> CHR '':'' then None
                         else (case parse_value n s3 of None \<Rightarrow> None
                               | Some (v, r) \<Rightarrow>
                                   (case r of [] \<Rightarrow> None
                                    | c # r' \<Rightarrow>
                                        if c = CHR ''}'' then Some ([(k, v)], r')
                                        else if c = CHR '','' then
                                          (case parse_members n r' of None \<Rightarrow> None
                                           | Some (kvs, r'') \<Rightarrow> Some ((k, v) # kvs, r''))
                                        else None)))))"

definition parse_json :: "string \<Rightarrow> json option" where
  "parse_json s =
     (case parse_value (Suc (length s)) s of
        Some (j, r) \<Rightarrow> (if r = [] then Some j else None)
      | None \<Rightarrow> None)"

text \<open>A redaction path addresses a field by dot and bracket steps from the root \<^verbatim>\<open>$\<close>:
  \<^verbatim>\<open>$.user.credit_card\<close>, \<^verbatim>\<open>$.items[0].name\<close>.\<close>

datatype step = Key string | Index nat

datatype pstate = AtStep | InKey string | InIndex "nat option"

definition is_digit :: "char \<Rightarrow> bool" where
  "is_digit c = (c \<in> set ''0123456789'')"

definition digit_of :: "char \<Rightarrow> nat" where
  "digit_of c = of_char c - 48"

fun path_steps :: "pstate \<Rightarrow> string \<Rightarrow> step list option" where
  "path_steps AtStep [] = Some []"
| "path_steps (InKey k) [] = (if k = [] then None else Some [Key k])"
| "path_steps (InIndex n) [] = None"
| "path_steps AtStep (c # r) =
     (if c = CHR ''.'' then path_steps (InKey []) r
      else if c = CHR ''['' then path_steps (InIndex None) r
      else None)"
| "path_steps (InKey k) (c # r) =
     (if c = CHR ''.'' \<or> c = CHR ''['' then
        (if k = [] then None
         else map_option ((#) (Key k))
                (path_steps (if c = CHR ''.'' then InKey [] else InIndex None) r))
      else path_steps (InKey (k @ [c])) r)"
| "path_steps (InIndex n) (c # r) =
     (if c = CHR '']'' then
        (case n of None \<Rightarrow> None
         | Some i \<Rightarrow> map_option ((#) (Index i)) (path_steps AtStep r))
      else if is_digit c then
        path_steps (InIndex (Some (10 * (case n of None \<Rightarrow> 0 | Some i \<Rightarrow> i) + digit_of c))) r
      else None)"

definition parse_path :: "string \<Rightarrow> step list option" where
  "parse_path s =
     (case s of [] \<Rightarrow> None
      | c # r \<Rightarrow> if c = CHR ''$'' then path_steps AtStep r else None)"

definition redaction_marker :: string where
  "redaction_marker = ''[CLIENT_REDACTED]''"

text \<open>Every value at a matching path is replaced with the marker; keys stay.\<close>

fun redact_at :: "step list \<Rightarrow> json \<Rightarrow> json"
and redact_members :: "string \<Rightarrow> step list \<Rightarrow> (string \<times> json) list \<Rightarrow> (string \<times> json) list"
and redact_elems :: "nat \<Rightarrow> step list \<Rightarrow> json list \<Rightarrow> json list"
where
  "redact_at [] j = JStr redaction_marker"
| "redact_at (Key k # p) (JObj kvs) = JObj (redact_members k p kvs)"
| "redact_at (Index i # p) (JArr xs) = JArr (redact_elems i p xs)"
| "redact_at (s # p) j = j"
| "redact_members k p [] = []"
| "redact_members k p ((k', v) # kvs) =
     (k', if k' = k then redact_at p v else v) # redact_members k p kvs"
| "redact_elems i p [] = []"
| "redact_elems 0 p (x # xs) = redact_at p x # xs"
| "redact_elems (Suc i) p (x # xs) = x # redact_elems i p xs"

text \<open>A path that is not well formed selects nothing.\<close>

definition redact_json :: "string list \<Rightarrow> json \<Rightarrow> json" where
  "redact_json paths j = fold redact_at (List.map_filter parse_path paths) j"

definition redact_body :: "string list \<Rightarrow> bytes \<Rightarrow> bytes" where
  "redact_body paths b =
     (case parse_json b of None \<Rightarrow> b | Some j \<Rightarrow> print_json (redact_json paths j))"

text \<open>Header redaction removes the header, whatever case its name is written in.\<close>

type_synonym headers = "string \<rightharpoonup> string list"

definition lower_char :: "char \<Rightarrow> char" where
  "lower_char c =
     (case map_of (zip ''ABCDEFGHIJKLMNOPQRSTUVWXYZ'' ''abcdefghijklmnopqrstuvwxyz'') c of
        Some l \<Rightarrow> l
      | None \<Rightarrow> c)"

definition redact_headers :: "string list \<Rightarrow> headers \<Rightarrow> headers" where
  "redact_headers names hs =
     (\<lambda>k. if map lower_char k \<in> set (map (map lower_char) names) then None else hs k)"

section \<open>Payload and span\<close>

datatype SDKType = GoGorillaMux | GoFiberSDKType

text \<open>Modelled from the spec: the Payload and its builders (\<^verbatim>\<open>apt.BuildPayload\<close>,
  \<^verbatim>\<open>apt.BuildFastHTTPPayload\<close>) belong to the root package, which is not among the sources.
  The Payload is the union of the Config identity and tags, the message id, the captured
  request and response after redaction, the error-list snapshot and the producing-SDK tag.
  A body is redacted and included only if its capture toggle is enabled.\<close>

record Payload =
  p_sdk_type :: SDKType
  p_msg_id :: uuid
  p_service_name :: string
  p_service_version :: string
  p_tags :: "string list"
  p_method :: string
  p_raw_path :: string
  p_url_path :: string
  p_path_params :: "string \<rightharpoonup> string"
  p_referer :: string
  p_request_headers :: headers
  p_request_body :: bytes
  p_status_code :: int
  p_response_headers :: headers
  p_response_body :: bytes
  p_errors :: "ATError list"

definition BuildFastHTTPPayload ::
  "SDKType \<Rightarrow> string \<Rightarrow> string \<Rightarrow> headers \<Rightarrow> int \<Rightarrow> bytes \<Rightarrow> bytes \<Rightarrow> headers \<Rightarrow>
   (string \<rightharpoonup> string) \<Rightarrow> string \<Rightarrow> string list \<Rightarrow> string list \<Rightarrow> string list \<Rightarrow>
   ATError list \<Rightarrow> uuid \<Rightarrow> string \<Rightarrow> Config \<Rightarrow> Payload" where
  "BuildFastHTTPPayload sdkType method rawPath reqHeader code reqBody respBody respHeader
     pathParams urlPath redactHeadersList redactRequestBodyList redactResponseBodyList
     errorList msgID referer config =
     \<lparr>p_sdk_type = sdkType,
      p_msg_id = msgID,
      p_service_name = ServiceName config,
      p_service_version = ServiceVersion config,
      p_tags = Tags config,
      p_method = method,
      p_raw_path = rawPath,
      p_url_path = urlPath,
      p_path_params = pathParams,
      p_referer = referer,
      p_request_headers = redact_headers redactHeadersList reqHeader,
      p_request_body =
        (if CaptureRequestBody config then redact_body redactRequestBodyList reqBody else []),
      p_status_code = code,
      p_response_headers = redact_headers redactHeadersList respHeader,
      p_response_body =
        (if CaptureResponseBody config then redact_body redactResponseBodyList respBody else []),
      p_errors = errorList\<rparr>"

definition BuildPayload ::
  "SDKType \<Rightarrow> string \<Rightarrow> string \<Rightarrow> headers \<Rightarrow> string \<Rightarrow> int \<Rightarrow> bytes \<Rightarrow> bytes \<Rightarrow> headers \<Rightarrow>
   (string \<rightharpoonup> string) \<Rightarrow> string \<Rightarrow> string list \<Rightarrow> string list \<Rightarrow> string list \<Rightarrow>
   ATError list \<Rightarrow> uuid \<Rightarrow> Config \<Rightarrow> Payload" where
  "BuildPayload sdkType method rawPath reqHeader referer code reqBody respBody respHeader
     pathParams urlPath redactHeadersList redactRequestBodyList redactResponseBodyList
     errorList msgID config =
     BuildFastHTTPPayload sdkType method rawPath reqHeader code reqBody respBody
       respHeader pathParams urlPath redactHeadersList redactRequestBodyList
       redactResponseBodyList errorList msgID referer config"

text \<open>Modelled from the spec: the tracing backend and \<^verbatim>\<open>apt.CreateSpan\<close> are not among the
  sources. A span is opened by \<^verbatim>\<open>tracer.Start\<close>, \<^verbatim>\<open>CreateSpan\<close> attaches a payload to it,
  and \<^verbatim>\<open>span.End\<close> closes it.\<close>

record span =
  span_name :: string
  attached :: "Payload list"
  ended :: bool

definition tracer_Start :: "string \<Rightarrow> span" where
  "tracer_Start name = \<lparr>span_name = name, attached = [], ended = False\<rparr>"

definition CreateSpan :: "Payload \<Rightarrow> Config \<Rightarrow> span \<Rightarrow> span" where
  "CreateSpan payload config sp = sp\<lparr>attached := attached sp @ [payload]\<rparr>"

definition span_End :: "span \<Rightarrow> span" where
  "span_End sp = sp\<lparr>ended := True\<rparr>"

text \<open>What the environment gives a request: the value of \<^verbatim>\<open>uuid.New()\<close> and the address
  at which the variable \<^verbatim>\<open>errorList\<close> is allocated.\<close>

record env =
  new_uuid :: uuid
  errorList_addr :: nat

text \<open>How a call ends: it returns, or a panic leaves it.\<close>

datatype 'a outcome = Returned 'a | Panicked panic_value

section \<open>gorilla: the middleware\<close>

record http_request =
  Method :: string
  URLPath :: string
  Header :: headers
  Referer :: string
  Body :: reader
  Ctx :: "context"
  route_template :: string
  route_vars :: "string \<rightharpoonup> string"

text \<open>One execution of the downstream handler is the sequence of calls it makes on the
  \<^verbatim>\<open>http.ResponseWriter\<close> it is given and on \<^verbatim>\<open>ReportError\<close> with the request's context,
  followed by its return or its panic.\<close>

datatype haction =
  HeaderSet string "string list"
  | CallWriteHeader int
  | CallWrite bytes
  | CallReportError go_error

datatype hend = Return | Panic panic_value

record handler =
  h_actions :: "haction list"
  h_end :: hend

fun do_action :: "context \<Rightarrow> responseRecorder \<times> heap \<Rightarrow> haction \<Rightarrow> responseRecorder \<times> heap" where
  "do_action ctx (r, h) (HeaderSet k v) =
     (r\<lparr>ResponseWriter :=
          (ResponseWriter r)\<lparr>rw_header := (rw_header (ResponseWriter r))(k \<mapsto> v)\<rparr>\<rparr>, h)"
| "do_action ctx (r, h) (CallWriteHeader code) = (WriteHeader code r, h)"
| "do_action ctx (r, h) (CallWrite b) = (snd (Write b r), h)"
| "do_action ctx (r, h) (CallReportError e) = (r, ReportError ctx e h)"

definition ServeHTTP ::
  "handler \<Rightarrow> responseRecorder \<Rightarrow> http_request \<Rightarrow> heap \<Rightarrow> hend \<times> responseRecorder \<times> heap" where
  "ServeHTTP next rec req h =
     (let (rec', h') = foldl (do_action (Ctx req)) (rec, h) (h_actions next)
      in (h_end next, rec', h'))"

record gorilla_run =
  g_outcome :: "unit outcome"
  g_span :: span
  g_writer :: response_writer
  g_heap :: heap
  g_served :: http_request

definition Middleware ::
  "Config \<Rightarrow> env \<Rightarrow> handler \<Rightarrow> response_writer \<Rightarrow> http_request \<Rightarrow> heap \<Rightarrow> gorilla_run" where
  "Middleware config e next res req0 h0 =
     (let sp = tracer_Start ''monoscope.http'';
          msgID = new_uuid e;
          newCtx = WithValue (Ctx req0) CurrentRequestMessageID (MessageID msgID);
          h1 = h0(errorList_addr e := []);
          newCtx = WithValue newCtx ErrorListCtxKey (ErrorListPtr (errorList_addr e));
          req = req0\<lparr>Ctx := newCtx\<rparr>;
          (reqBuf, req, h2) =
            (if CaptureRequestBody config then
               (let (buf, err) = ReadAll (Body req);
                    h = (case err of Some er \<Rightarrow> ReportError newCtx er h1 | None \<Rightarrow> h1)
                in (buf, req\<lparr>Body := NopCloser (NewBuffer buf)\<rparr>, h))
             else ([], req, h1));
          rec = newRecorder res (CaptureResponseBody config);
          (fin, rec, h3) = ServeHTTP next rec req h2
      in case fin of
           Panic v \<Rightarrow>
             \<lparr>g_outcome = Panicked v, g_span = span_End sp, g_writer = ResponseWriter rec,
              g_heap = h3, g_served = req\<rparr>
         | Return \<Rightarrow>
             (let resBody = (if CaptureResponseBody config then body rec else []);
                  statusCode = StatusCode rec;
                  pathTmpl = route_template req;
                  vars = route_vars req;
                  aptConfig = getAptConfig config;
                  payload = BuildPayload GoGorillaMux (Method req) (URLPath req) (Header req)
                              (Referer req) statusCode reqBuf resBody
                              (rw_header (ResponseWriter rec)) vars pathTmpl
                              (RedactHeaders config) (RedactRequestBody config)
                              (RedactResponseBody config)
                              (h3 (errorList_addr e)) msgID aptConfig;
                  sp = CreateSpan payload aptConfig sp
              in \<lparr>g_outcome = Returned (), g_span = span_End sp,
                  g_writer = ResponseWriter rec, g_heap = h3, g_served = req\<rparr>))"

section \<open>fiber: the middleware\<close>

text \<open>The part of \<^verbatim>\<open>*fiber.Ctx\<close> the middleware reads and writes.\<close>

record fiber_ctx =
  userContext :: "context"
  locals :: "ctxkey \<rightharpoonup> ctxval"
  fc_method :: string
  fc_path :: string
  fc_referer :: string
  reqHeaders :: headers
  reqBody :: bytes
  respHeaders :: headers
  respStatus :: int
  respBody :: bytes
  allParams :: "string \<rightharpoonup> string"
  routePath :: string

text \<open>One execution of the rest of the chain (\<^verbatim>\<open>ctx.Next()\<close>): the calls it makes on the
  \<^verbatim>\<open>*fiber.Ctx\<close> and on \<^verbatim>\<open>ReportError\<close> with the user context of that moment, followed by
  its return (with or without an error) or its panic.\<close>

datatype faction =
  FSet string "string list"
  | FStatus int
  | FWrite bytes
  | FReportError go_error
  | FSetUserContext "context"

datatype fend = FReturn "go_error option" | FPanic panic_value

record fhandler =
  f_actions :: "faction list"
  f_end :: fend

fun fiber_action :: "fiber_ctx \<times> heap \<Rightarrow> faction \<Rightarrow> fiber_ctx \<times> heap" where
  "fiber_action (c, h) (FSet k v) = (c\<lparr>respHeaders := (respHeaders c)(k \<mapsto> v)\<rparr>, h)"
| "fiber_action (c, h) (FStatus code) = (c\<lparr>respStatus := code\<rparr>, h)"
| "fiber_action (c, h) (FWrite b) = (c\<lparr>respBody := respBody c @ b\<rparr>, h)"
| "fiber_action (c, h) (FReportError e) = (c, ReportError (userContext c) e h)"
| "fiber_action (c, h) (FSetUserContext u) = (c\<lparr>userContext := u\<rparr>, h)"

definition Next :: "fhandler \<Rightarrow> fiber_ctx \<Rightarrow> heap \<Rightarrow> fend \<times> fiber_ctx \<times> heap" where
  "Next next c h =
     (let (c', h') = foldl fiber_action (c, h) (f_actions next) in (f_end next, c', h'))"

text \<open>The first statement of the deferred function:
  \<^verbatim>\<open>if _, ok := err.(error); !ok { err = errors.New(err.(string)) }\<close>.
  The unchecked assertion \<^verbatim>\<open>err.(string)\<close> panics on a value that is not a string
  (\<open>Inl\<close>).\<close>

fun recovered_error :: "panic_value \<Rightarrow> go_error + go_error" where
  "recovered_error (PanicError er) = Inr er"
| "recovered_error (PanicString s) = Inr (errors_New s)"
| "recovered_error (PanicOther n) = Inl TypeAssertionError"

record fiber_run =
  f_outcome :: "go_error option outcome"
  f_span :: span
  f_ctx :: fiber_ctx
  f_heap :: heap

definition fiber_Middleware ::
  "Config \<Rightarrow> env \<Rightarrow> fhandler \<Rightarrow> fiber_ctx \<Rightarrow> heap \<Rightarrow> fiber_run" where
  "fiber_Middleware config e next ctx0 h0 =
     (let baseCtx = userContext ctx0;
          sp = tracer_Start ''monoscope.http'';
          newCtx = baseCtx;
          msgID = new_uuid e;
          ctx = ctx0\<lparr>locals := (locals ctx0)(CurrentRequestMessageID \<mapsto> MessageID msgID)\<rparr>;
          h1 = h0(errorList_addr e := []);
          ctx = ctx\<lparr>locals := (locals ctx)(ErrorListCtxKey \<mapsto> ErrorListPtr (errorList_addr e))\<rparr>;
          newCtx = WithValue newCtx ErrorListCtxKey (ErrorListPtr (errorList_addr e));
          newCtx = WithValue newCtx CurrentRequestMessageID (MessageID msgID);
          ctx = ctx\<lparr>userContext := newCtx\<rparr>;
          respHeaders = (\<lambda>k. respHeaders ctx k);
          aptConfig = getAptConfig config;
          (fin, ctx, h2) = Next next ctx h1
      in case fin of
           FPanic v \<Rightarrow>
             (case recovered_error v of
                Inl rt \<Rightarrow>
                  \<lparr>f_outcome = Panicked (PanicError rt), f_span = span_End sp,
                   f_ctx = ctx, f_heap = h2\<rparr>
              | Inr err \<Rightarrow>
                  (let h3 = ReportError (userContext ctx) err h2;
                       payload = BuildFastHTTPPayload GoFiberSDKType (fc_method ctx) (fc_path ctx)
                                   (reqHeaders ctx) 500 (reqBody ctx) (respBody ctx) respHeaders
                                   (allParams ctx) (routePath ctx)
                                   (RedactHeaders config) (RedactRequestBody config)
                                   (RedactResponseBody config)
                                   (h3 (errorList_addr e)) msgID (fc_referer ctx) aptConfig;
                       sp = CreateSpan payload aptConfig sp
                   in \<lparr>f_outcome = Panicked (PanicError err), f_span = span_End sp,
                       f_ctx = ctx, f_heap = h3\<rparr>))
         | FReturn err \<Rightarrow>
             (let payload = BuildFastHTTPPayload GoFiberSDKType (fc_method ctx) (fc_path ctx)
                              (reqHeaders ctx) (respStatus ctx) (reqBody ctx) (respBody ctx)
                              respHeaders (allParams ctx) (routePath ctx)
                              (RedactHeaders config) (RedactRequestBody config)
                              (RedactResponseBody config)
                              (h2 (errorList_addr e)) msgID (fc_referer ctx) aptConfig;
                  sp = CreateSpan payload aptConfig sp
              in \<lparr>f_outcome = Returned err, f_span = span_End sp, f_ctx = ctx, f_heap = h2\<rparr>))"

section \<open>Auxiliary notions and concrete executions\<close>

text \<open>A handler call that sets the status explicitly.\<close>

fun sets_status :: "haction \<Rightarrow> bool" where
  "sets_status (CallWriteHeader code) = True"
| "sets_status _ = False"

text \<open>The errors a gorilla handler execution reports, in order.\<close>

definition reported :: "haction list \<Rightarrow> go_error list" where
  "reported acts = concat (map (\<lambda>a. case a of CallReportError er \<Rightarrow> [er] | _ \<Rightarrow> []) acts)"

text \<open>A response writer that accepts every write, as \<^verbatim>\<open>httptest.NewRecorder()\<close> does.\<close>

definition plain_writer :: response_writer where
  "plain_writer =
     \<lparr>rw_header = Map.empty, rw_calls = [], rw_result = (\<lambda>b. (int (length b), None))\<rparr>"

definition ex_config :: Config where
  "ex_config =
     \<lparr>Debug = False, ServiceVersion = [], ServiceName = ''test-service'',
      RedactHeaders = [], RedactRequestBody = [], RedactResponseBody = [], Tags = [],
      CaptureRequestBody = True, CaptureResponseBody = True\<rparr>"

definition ex_config_off :: Config where
  "ex_config_off = ex_config\<lparr>CaptureRequestBody := False, CaptureResponseBody := False\<rparr>"

definition ex_env :: env where
  "ex_env = \<lparr>new_uuid = 1, errorList_addr = 0\<rparr>"

definition ex_heap :: heap where
  "ex_heap = (\<lambda>a. [])"

text \<open>\<^verbatim>\<open>context.Background()\<close>: a context without values.\<close>

definition background :: "context" where
  "background = Map.empty"

definition ex_request :: "reader \<Rightarrow> http_request" where
  "ex_request b =
     \<lparr>Method = ''POST'', URLPath = ''/test'', Header = Map.empty, Referer = [],
      Body = b, Ctx = background, route_template = ''/test'', route_vars = Map.empty\<rparr>"

text \<open>A body whose read fails after three bytes, and one that delivers its bytes in two
  chunks.\<close>

definition failing_body :: reader where
  "failing_body = Reader [''abc''] (Some (GoError ''unexpected EOF''))"

definition chunked_body :: reader where
  "chunked_body = Reader [''{\"key\":'', ''\"value\"}''] None"

definition h_write_only :: handler where
  "h_write_only = \<lparr>h_actions = [CallWrite ''No status set''], h_end = Return\<rparr>"

definition h_panics :: handler where
  "h_panics =
     \<lparr>h_actions = [CallWriteHeader 200, CallWrite ''Before''],
      h_end = Panic (PanicString ''boom'')\<rparr>"

definition ex_fiber_ctx :: fiber_ctx where
  "ex_fiber_ctx =
     \<lparr>userContext = background, locals = Map.empty, fc_method = ''GET'',
      fc_path = ''/test'', fc_referer = [], reqHeaders = Map.empty, reqBody = [],
      respHeaders = Map.empty, respStatus = 200, respBody = [], allParams = Map.empty,
      routePath = ''/test''\<rparr>"

definition fh_panic_string :: fhandler where
  "fh_panic_string =
     \<lparr>f_actions = [FStatus 404, FWrite ''partial''], f_end = FPanic (PanicString ''boom'')\<rparr>"

definition fh_panic_error :: fhandler where
  "fh_panic_error =
     \<lparr>f_actions = [FStatus 404, FWrite ''partial''],
      f_end = FPanic (PanicError (GoError ''boom''))\<rparr>"

text \<open>A handler that replaces the user context by \<^verbatim>\<open>context.Background()\<close> and panics.\<close>

definition fh_detached :: fhandler where
  "fh_detached =
     \<lparr>f_actions = [FSetUserContext background], f_end = FPanic (PanicString ''boom'')\<rparr>"

definition fh_sets_header :: fhandler where
  "fh_sets_header = \<lparr>f_actions = [FSet ''X-Test'' [''value'']], f_end = FReturn None\<rparr>"

text \<open>The trees the parser yields and the printer gives back unchanged: a number is a
  non-empty lexeme, a string or a key holds no double quote.\<close>

fun wf_json :: "json \<Rightarrow> bool"
and wf_elems :: "json list \<Rightarrow> bool"
and wf_members :: "(string \<times> json) list \<Rightarrow> bool"
where
  "wf_json (JNum s) = (s \<noteq> [] \<and> list_all numchar s)"
| "wf_json (JStr s) = (CHR 0x22 \<notin> set s)"
| "wf_json (JArr xs) = wf_elems xs"
| "wf_json (JObj kvs) = wf_members kvs"
| "wf_json j = True"
| "wf_elems [] = True"
| "wf_elems (x # xs) = (wf_json x \<and> wf_elems xs)"
| "wf_members [] = True"
| "wf_members ((k, v) # kvs) = (CHR 0x22 \<notin> set k \<and> wf_json v \<and> wf_members kvs)"

definition ex_json_body :: bytes where
  "ex_json_body = ''{\"password\":\"secret123\",\"username\":\"john\"}''"

text \<open>The errors a fiber handler execution reports, in order, and those among them that
  reach the error list at address \<open>a\<close>: a report arrives there only while the user context
  carries the pointer to that list.\<close>

definition freported :: "faction list \<Rightarrow> go_error list" where
  "freported acts = concat (map (\<lambda>a. case a of FReportError er \<Rightarrow> [er] | _ \<Rightarrow> []) acts)"

fun recorded_errors :: "nat \<Rightarrow> bool \<Rightarrow> faction list \<Rightarrow> go_error list" where
  "recorded_errors a carries [] = []"
| "recorded_errors a carries (FReportError er # acts) =
     (if carries then [er] else []) @ recorded_errors a carries acts"
| "recorded_errors a carries (FSetUserContext u # acts) =
     recorded_errors a (u ErrorListCtxKey = Some (ErrorListPtr a)) acts"
| "recorded_errors a carries (x # acts) = recorded_errors a carries acts"

text \<open>The \<^verbatim>\<open>*fiber.Ctx\<close> as the fiber middleware hands it to the rest of the chain.\<close>

definition fiber_installed :: "env \<Rightarrow> fiber_ctx \<Rightarrow> fiber_ctx" where
  "fiber_installed e ctx =
     ctx\<lparr>locals := (locals ctx)(CurrentRequestMessageID \<mapsto> MessageID (new_uuid e),
                                  ErrorListCtxKey \<mapsto> ErrorListPtr (errorList_addr e)),
         userContext :=
           WithValue (WithValue (userContext ctx) ErrorListCtxKey (ErrorListPtr (errorList_addr e)))
             CurrentRequestMessageID (MessageID (new_uuid e))\<rparr>"

text \<open>A handler that sets a status, reports an error, writes and then panics.\<close>

definition fh_report_then_panic :: fhandler where
  "fh_report_then_panic =
     \<lparr>f_actions = [FStatus 404, FReportError (GoError ''e1''), FWrite ''partial''],
      f_end = FPanic (PanicString ''boom'')\<rparr>"

lemmas ex_defs = ex_config_def ex_config_off_def ex_env_def ex_heap_def background_def
  ex_request_def failing_body_def chunked_body_def h_write_only_def h_panics_def
  ex_fiber_ctx_def fh_panic_string_def fh_panic_error_def fh_detached_def fh_sets_header_def
  plain_writer_def

lemmas run_defs = Middleware_def fiber_Middleware_def ServeHTTP_def Next_def Let_def
  tracer_Start_def span_End_def CreateSpan_def BuildPayload_def BuildFastHTTPPayload_def
  getAptConfig_def WithValue_def ReportError_def newRecorder_def WriteHeader_def Write_def
  rw_WriteHeader_def rw_Write_def StatusCode_def NewBuffer_def NopCloser_def errors_New_def

section \<open>The response recorder\<close>

lemma WriteHeader_fields:
  "status (WriteHeader code r) = True"
  "statusCode (WriteHeader code r) = (if status r then statusCode r else code)"
  "body (WriteHeader code r) = body r"
  "captureBody (WriteHeader code r) = captureBody r"
  "rw_calls (ResponseWriter (WriteHeader code r)) =
     rw_calls (ResponseWriter r) @ (if status r then [] else [WireWriteHeader code])"
  "rw_result (ResponseWriter (WriteHeader code r)) = rw_result (ResponseWriter r)"
  "rw_header (ResponseWriter (WriteHeader code r)) = rw_header (ResponseWriter r)"
  by (simp_all add: WriteHeader_def rw_WriteHeader_def)

lemma Write_fields:
  "fst (Write b r) = rw_result (ResponseWriter r) b"
  "status (snd (Write b r)) = True"
  "statusCode (snd (Write b r)) = (if status r then statusCode r else 200)"
  "body (snd (Write b r)) = (if captureBody r then body r @ b else body r)"
  "captureBody (snd (Write b r)) = captureBody r"
  "rw_calls (ResponseWriter (snd (Write b r))) =
     rw_calls (ResponseWriter r) @ (if status r then [] else [WireWriteHeader 200]) @ [WireWrite b]"
  "rw_header (ResponseWriter (snd (Write b r))) = rw_header (ResponseWriter r)"
  by (simp_all add: Write_def Let_def rw_Write_def WriteHeader_fields split: prod.splits)

lemma no_status_step:
  assumes "\<not> sets_status a" "statusCode (fst s) = 0 \<or> statusCode (fst s) = 200"
  shows "statusCode (fst (do_action ctx s a)) = 0 \<or> statusCode (fst (do_action ctx s a)) = 200"
  using assms by (cases a; cases s) (auto simp: Write_fields)

lemma no_status_run:
  assumes "\<forall>a\<in>set acts. \<not> sets_status a" "statusCode (fst s) = 0 \<or> statusCode (fst s) = 200"
  shows "statusCode (fst (foldl (do_action ctx) s acts)) = 0
       \<or> statusCode (fst (foldl (do_action ctx) s acts)) = 200"
  using assms
proof (induction acts arbitrary: s)
  case Nil
  then show ?case by simp
next
  case (Cons a acts)
  have "statusCode (fst (do_action ctx s a)) = 0 \<or> statusCode (fst (do_action ctx s a)) = 200"
    using Cons.prems by (intro no_status_step) auto
  then show ?case using Cons.IH [of "do_action ctx s a"] Cons.prems(1) by simp
qed

lemma no_status_run_fresh:
  assumes "\<forall>a\<in>set acts. \<not> sets_status a"
  shows "StatusCode (fst (foldl (do_action ctx) (newRecorder res capture, h) acts)) = 200"
proof -
  have "statusCode (fst (newRecorder res capture, h)) = 0" by (simp add: newRecorder_def)
  then have "statusCode (fst (foldl (do_action ctx) (newRecorder res capture, h) acts)) = 0
      \<or> statusCode (fst (foldl (do_action ctx) (newRecorder res capture, h) acts)) = 200"
    using no_status_run [OF assms, of "(newRecorder res capture, h)" ctx] by simp
  then show ?thesis by (auto simp: StatusCode_def)
qed

lemma gorilla_status:
  assumes "p \<in> set (attached (g_span (Middleware config e next res req h)))"
  shows "\<exists>ctx h2. p_status_code p =
           StatusCode (fst (foldl (do_action ctx) (newRecorder res (CaptureResponseBody config), h2)
             (h_actions next)))"
  using assms
  by (auto simp: Middleware_def Let_def ServeHTTP_def tracer_Start_def span_End_def
      CreateSpan_def BuildPayload_def BuildFastHTTPPayload_def
      split: prod.splits hend.splits if_splits) (metis fst_conv)+

text \<open>C4: whenever the handler makes no explicit status-set call, whether it writes body bytes
  or writes nothing at all, the response recorder reports status 200, and so does the
  Payload built from it.\<close>

theorem status_default_200:
  assumes "\<forall>a\<in>set (h_actions next). \<not> sets_status a"
  shows "StatusCode (fst (snd (ServeHTTP next (newRecorder res capture) req h))) = 200
       \<and> (\<forall>p\<in>set (attached (g_span (Middleware config e next res req h))). p_status_code p = 200)"
proof
  show "StatusCode (fst (snd (ServeHTTP next (newRecorder res capture) req h))) = 200"
    using no_status_run_fresh [OF assms, of "Ctx req" res capture h]
    by (simp add: ServeHTTP_def Let_def split: prod.splits)
  show "\<forall>p\<in>set (attached (g_span (Middleware config e next res req h))). p_status_code p = 200"
    using gorilla_status [of _ config e "next" res req h] no_status_run_fresh [OF assms]
    by metis
qed

theorem status_default_200_witness:
  "\<not> list_ex sets_status (h_actions h_write_only)
   \<and> StatusCode (fst (snd (ServeHTTP h_write_only (newRecorder plain_writer True)
        (ex_request (Reader [] None)) ex_heap))) = 200
   \<and> map p_status_code (attached (g_span (Middleware ex_config ex_env h_write_only plain_writer
        (ex_request (Reader [] None)) ex_heap))) = [200]"
proof -
  have hyp: "\<forall>a\<in>set (h_actions h_write_only). \<not> sets_status a"
    by (simp add: h_write_only_def)
  have "length (attached (g_span (Middleware ex_config ex_env h_write_only plain_writer
        (ex_request (Reader [] None)) ex_heap))) = 1"
    by (simp add: run_defs ex_defs)
  then show ?thesis
    using hyp status_default_200 [OF hyp, of plain_writer True "ex_request (Reader [] None)"
        ex_heap ex_config ex_env]
    by (auto simp: length_Suc_conv list_ex_iff)
qed

lemma fold_WriteHeader_set:
  "status r \<Longrightarrow> fold WriteHeader codes r = r"
  by (induction codes arbitrary: r) (simp_all add: WriteHeader_def)

text \<open>C5, as amended: for every sequence of status-set calls on a fresh response recorder,
  the recorded status is the code of the first call and the later calls change nothing; only
  that first call is forwarded to the underlying response writer, the later ones are not.
  \<open>StatusCode()\<close> reports the recorded code (200 in place of a recorded 0), also when
  body bytes are written after the status was set.\<close>

theorem first_status_wins:
  "statusCode (fold WriteHeader (code # codes) (newRecorder res capture)) = code
   \<and> rw_calls (ResponseWriter (fold WriteHeader (code # codes) (newRecorder res capture)))
       = rw_calls res @ [WireWriteHeader code]
   \<and> StatusCode (fold WriteHeader (code # codes) (newRecorder res capture))
       = (if code = 0 then 200 else code)
   \<and> StatusCode (snd (Write b (WriteHeader code (newRecorder res capture))))
       = (if code = 0 then 200 else code)"
proof -
  let ?r = "WriteHeader code (newRecorder res capture)"
  have s: "status ?r" by (simp add: WriteHeader_fields)
  have "fold WriteHeader (code # codes) (newRecorder res capture) = ?r"
    using fold_WriteHeader_set [OF s] by simp
  then show ?thesis
    by (simp add: WriteHeader_fields Write_fields StatusCode_def) (simp add: newRecorder_def)
qed

theorem first_status_wins_witness:
  "statusCode (fold WriteHeader [201, 404, 500] (newRecorder plain_writer True)) = 201
   \<and> rw_calls (ResponseWriter (fold WriteHeader [201, 404, 500] (newRecorder plain_writer True)))
       = [WireWriteHeader 201]
   \<and> StatusCode (snd (Write ''created'' (WriteHeader 201 (newRecorder plain_writer True)))) = 201"
  using first_status_wins [of 201 "[404, 500]" plain_writer True "''created''"]
  by (simp add: plain_writer_def)

text \<open>The claim as stated fails: of two status-set calls, the second never reaches the
  underlying response writer.\<close>

theorem later_status_not_forwarded:
  "rw_calls (ResponseWriter (fold WriteHeader [201, 404] (newRecorder plain_writer False)))
     = [WireWriteHeader 201]
   \<and> WireWriteHeader 404 \<notin> set (rw_calls (ResponseWriter
         (fold WriteHeader [201, 404] (newRecorder plain_writer False))))"
  by (simp add: WriteHeader_def newRecorder_def plain_writer_def rw_WriteHeader_def)

section \<open>gorilla: request-body capture\<close>

lemma ReadAll_loop_eq: "ReadAll_loop b cs e = (b @ concat cs, e)"
  by (induction cs arbitrary: b) simp_all

lemma ReadAll_NewBuffer: "ReadAll (NopCloser (NewBuffer buf)) = (buf, None)"
  by (simp add: NewBuffer_def NopCloser_def)

lemma gorilla_served_body:
  "Body (g_served (Middleware config e next res req h)) =
     (if CaptureRequestBody config then NopCloser (NewBuffer (fst (ReadAll (Body req))))
      else Body req)"
  by (simp add: Middleware_def Let_def ServeHTTP_def split: prod.splits hend.splits)

text \<open>C6: the byte sequence delivered by the body that the downstream handler is given is
  the same with request-body capture enabled and disabled: it is the byte sequence of the
  original request body.\<close>

theorem capture_transparent:
  "fst (ReadAll (Body (g_served
      (Middleware (config\<lparr>CaptureRequestBody := True\<rparr>) e next res req h))))
   = fst (ReadAll (Body (g_served
      (Middleware (config\<lparr>CaptureRequestBody := False\<rparr>) e next res req h))))
   \<and> fst (ReadAll (Body (g_served
      (Middleware (config\<lparr>CaptureRequestBody := True\<rparr>) e next res req h))))
   = fst (ReadAll (Body req))"
  by (simp add: gorilla_served_body ReadAll_NewBuffer)

theorem capture_transparent_witness:
  "fst (ReadAll (Body (g_served
      (Middleware (ex_config\<lparr>CaptureRequestBody := True\<rparr>) ex_env h_write_only plain_writer
         (ex_request chunked_body) ex_heap))))
   = fst (ReadAll (Body (g_served
      (Middleware (ex_config\<lparr>CaptureRequestBody := False\<rparr>) ex_env h_write_only plain_writer
         (ex_request chunked_body) ex_heap))))
   \<and> fst (ReadAll (Body (g_served
      (Middleware (ex_config\<lparr>CaptureRequestBody := True\<rparr>) ex_env h_write_only plain_writer
         (ex_request chunked_body) ex_heap))))
   = ''{\"key\":\"value\"}''"
proof -
  have "fst (ReadAll (Body (ex_request chunked_body))) = ''{\"key\":\"value\"}''"
    by (simp add: ex_request_def chunked_body_def)
  then show ?thesis
    using capture_transparent [of ex_config ex_env h_write_only plain_writer
        "ex_request chunked_body" ex_heap]
    by auto
qed

section \<open>gorilla: response-body capture\<close>

lemma run_body:
  "\<not> captureBody r \<Longrightarrow> body (fst (foldl (do_action ctx) (r, h) acts)) = body r
     \<and> \<not> captureBody (fst (foldl (do_action ctx) (r, h) acts))"
proof (induction acts arbitrary: r h)
  case Nil
  then show ?case by simp
next
  case (Cons x acts)
  obtain r' h' where step: "do_action ctx (r, h) x = (r', h')" by (cases "do_action ctx (r, h) x")
  have "body r' = body r \<and> \<not> captureBody r'"
    using step Cons.prems by (cases x) (auto simp: Write_fields WriteHeader_fields)
  then show ?case using Cons.IH [of r' h'] step by simp
qed

lemma gorilla_response_body_off:
  assumes "\<not> CaptureResponseBody config"
    and "p \<in> set (attached (g_span (Middleware config e next res req h)))"
  shows "p_response_body p = []"
  using assms
  by (auto simp: Middleware_def Let_def ServeHTTP_def tracer_Start_def span_End_def
      CreateSpan_def BuildPayload_def BuildFastHTTPPayload_def getAptConfig_def
      split: prod.splits hend.splits)

text \<open>C7: with the capture flag off, \<open>Write\<close> still forwards its bytes to the underlying
  response writer (after the implied status 200 if none was sent) and returns that writer's
  result, the recorder's buffer stays as it was, through a whole handler execution too, and
  the Payload carries no response body.\<close>

theorem capture_off_forwards_unbuffered:
  "(\<not> captureBody r \<longrightarrow>
      fst (Write b r) = rw_result (ResponseWriter r) b
    \<and> rw_calls (ResponseWriter (snd (Write b r))) =
        rw_calls (ResponseWriter r) @ (if status r then [] else [WireWriteHeader 200]) @ [WireWrite b]
    \<and> body (snd (Write b r)) = body r)
   \<and> body (fst (snd (ServeHTTP next (newRecorder res False) req h))) = []
   \<and> (\<not> CaptureResponseBody config \<longrightarrow>
        (\<forall>p\<in>set (attached (g_span (Middleware config e next res req h))).
           p_response_body p = []))"
proof (intro conjI impI ballI)
  show "body (fst (snd (ServeHTTP next (newRecorder res False) req h))) = []"
    using run_body [of "newRecorder res False" "Ctx req" h "h_actions next"]
    by (simp add: ServeHTTP_def Let_def newRecorder_def split: prod.splits)
qed (simp_all add: Write_fields gorilla_response_body_off)

theorem capture_off_forwards_unbuffered_witness:
  "\<not> captureBody (newRecorder plain_writer False)
   \<and> fst (Write ''Response'' (newRecorder plain_writer False)) = (8, None)
   \<and> rw_calls (ResponseWriter (snd (Write ''Response'' (newRecorder plain_writer False))))
       = [WireWriteHeader 200, WireWrite ''Response'']
   \<and> body (snd (Write ''Response'' (newRecorder plain_writer False))) = []
   \<and> \<not> CaptureResponseBody ex_config_off
   \<and> map p_response_body (attached (g_span (Middleware ex_config_off ex_env h_write_only
        plain_writer (ex_request chunked_body) ex_heap))) = [[]]"
proof -
  have off: "\<not> captureBody (newRecorder plain_writer False)" "\<not> CaptureResponseBody ex_config_off"
    by (simp_all add: newRecorder_def ex_config_off_def ex_config_def)
  have one: "length (attached (g_span (Middleware ex_config_off ex_env h_write_only
        plain_writer (ex_request chunked_body) ex_heap))) = 1"
    by (simp add: run_defs ex_defs)
  show ?thesis
    using off one capture_off_forwards_unbuffered [of "newRecorder plain_writer False"
        "''Response''" h_write_only plain_writer "ex_request chunked_body" ex_heap
        ex_config_off ex_env]
    by (auto simp: length_Suc_conv) (simp_all add: newRecorder_def plain_writer_def)
qed

section \<open>gorilla: one execution of the middleware\<close>

lemma run_heap:
  assumes "ctx ErrorListCtxKey = Some (ErrorListPtr a)"
  shows "snd (foldl (do_action ctx) (r, h) acts) a = h a @ map ATError (reported acts)"
  using assms
proof (induction acts arbitrary: r h)
  case Nil
  then show ?case by (simp add: reported_def)
next
  case (Cons x acts)
  obtain r' h' where step: "do_action ctx (r, h) x = (r', h')" by (cases "do_action ctx (r, h) x")
  have "h' a = h a @ map ATError (reported [x])"
    using step Cons.prems by (cases x) (auto simp: reported_def ReportError_def)
  moreover have "reported (x # acts) = reported [x] @ reported acts" by (simp add: reported_def)
  ultimately show ?case using Cons.IH [OF Cons.prems, of r' h'] step by simp
qed

lemma run_heap':
  assumes "ctx ErrorListCtxKey = Some (ErrorListPtr a)"
    and "foldl (do_action ctx) (r, h) acts = (r', h')"
  shows "h' a = h a @ map ATError (reported acts)"
  using run_heap [of ctx a r h acts, OF assms(1)] assms(2) by simp

lemma gorilla_heap:
  "g_heap (Middleware config e next res req h) (errorList_addr e) =
     (if CaptureRequestBody config
      then (case snd (ReadAll (Body req)) of None \<Rightarrow> [] | Some er \<Rightarrow> [ATError er]) else [])
     @ map ATError (reported (h_actions next))"
  by (auto simp: Middleware_def Let_def ServeHTTP_def ReportError_def WithValue_def
      split: prod.splits hend.splits option.splits dest!: run_heap' [rotated])

lemma gorilla_return:
  assumes "h_end next = Return"
  shows "g_outcome (Middleware config e next res req h) = Returned ()"
    and "\<exists>p. attached (g_span (Middleware config e next res req h)) = [p]
          \<and> p_request_body p = (if CaptureRequestBody config
               then redact_body (RedactRequestBody config) (fst (ReadAll (Body req))) else [])
          \<and> p_errors p = g_heap (Middleware config e next res req h) (errorList_addr e)"
  using assms
  by (simp_all add: Middleware_def Let_def ServeHTTP_def tracer_Start_def span_End_def
      CreateSpan_def BuildPayload_def BuildFastHTTPPayload_def getAptConfig_def
      split: prod.splits hend.splits)

lemma redact_body_empty: "redact_body paths [] = []"
  by (simp add: redact_body_def parse_json_def)

text \<open>C8, as amended: if reading the request body fails, the middleware captures the bytes
  read before the failure (nothing, if it failed before the first byte), records the read
  error as the first reported error, still invokes the downstream handler, which is given
  exactly those bytes, and, the handler returning, builds one Payload and returns
  normally.\<close>

theorem read_failure_degrades:
  assumes "CaptureRequestBody config"
    and "ReadAll (Body req) = (buf, Some er)"
    and "h_end next = Return"
  shows "g_outcome (Middleware config e next res req h) = Returned ()
       \<and> ReadAll (Body (g_served (Middleware config e next res req h))) = (buf, None)
       \<and> (\<exists>p. attached (g_span (Middleware config e next res req h)) = [p]
             \<and> p_request_body p = redact_body (RedactRequestBody config) buf
             \<and> (buf = [] \<longrightarrow> p_request_body p = [])
             \<and> p_errors p = ATError er # map ATError (reported (h_actions next)))"
  using assms gorilla_return [OF assms(3), of config e res req h]
    gorilla_heap [of config e "next" res req h]
  by (auto simp: gorilla_served_body ReadAll_NewBuffer redact_body_empty)

theorem read_failure_degrades_witness:
  "CaptureRequestBody ex_config
   \<and> ReadAll (Body (ex_request failing_body)) = (''abc'', Some (GoError ''unexpected EOF''))
   \<and> h_end h_write_only = Return
   \<and> g_outcome (Middleware ex_config ex_env h_write_only plain_writer
        (ex_request failing_body) ex_heap) = Returned ()
   \<and> ReadAll (Body (g_served (Middleware ex_config ex_env h_write_only plain_writer
        (ex_request failing_body) ex_heap))) = (''abc'', None)
   \<and> map p_errors (attached (g_span (Middleware ex_config ex_env h_write_only plain_writer
        (ex_request failing_body) ex_heap))) = [[ATError (GoError ''unexpected EOF'')]]"
proof -
  have hyps: "CaptureRequestBody ex_config"
    "ReadAll (Body (ex_request failing_body)) = (''abc'', Some (GoError ''unexpected EOF''))"
    "h_end h_write_only = Return"
    by (simp_all add: ex_config_def ex_request_def failing_body_def h_write_only_def)
  have "reported (h_actions h_write_only) = []"
    by (simp add: reported_def h_write_only_def)
  then show ?thesis
    using hyps read_failure_degrades [OF hyps, of ex_env plain_writer ex_heap] by auto
qed

text \<open>The claim as stated fails: a read that fails after three bytes leaves those three
  bytes, not an empty body, in the Payload.\<close>

theorem read_failure_keeps_partial_body:
  "snd (ReadAll (Body (ex_request failing_body))) = Some (GoError ''unexpected EOF'')
   \<and> map p_request_body (attached (g_span (Middleware ex_config ex_env h_write_only
        plain_writer (ex_request failing_body) ex_heap))) = [''abc'']"
  by (simp add: run_defs ex_defs redact_body_def parse_json_def numchar_def)

section \<open>fiber: one execution of the middleware\<close>

lemma fiber_return:
  assumes "f_end next = FReturn r"
  shows "f_outcome (fiber_Middleware config e next ctx h) = Returned r"
    and "\<exists>p. attached (f_span (fiber_Middleware config e next ctx h)) = [p]"
  using assms
  by (simp_all add: fiber_Middleware_def Let_def Next_def tracer_Start_def span_End_def
      CreateSpan_def split: prod.splits fend.splits)

lemma fiber_panic:
  assumes "f_end next = FPanic v" "recovered_error v = Inr er"
  shows "f_outcome (fiber_Middleware config e next ctx h) = Panicked (PanicError er)"
    and "\<exists>p. attached (f_span (fiber_Middleware config e next ctx h)) = [p]
          \<and> p_status_code p = 500
          \<and> p_errors p = f_heap (fiber_Middleware config e next ctx h) (errorList_addr e)"
  using assms
  by (simp_all add: fiber_Middleware_def Let_def Next_def tracer_Start_def span_End_def
      CreateSpan_def BuildFastHTTPPayload_def split: prod.splits fend.splits)

lemma ReportError_at:
  "ReportError u er h a =
     h a @ (if u ErrorListCtxKey = Some (ErrorListPtr a) then [ATError er] else [])"
  by (auto simp: ReportError_def split: option.splits ctxval.splits)

lemma fiber_run_recorded:
  "snd (foldl fiber_action (c, h) acts) a =
     h a @ map ATError
       (recorded_errors a (userContext c ErrorListCtxKey = Some (ErrorListPtr a)) acts)"
proof (induction acts arbitrary: c h)
  case Nil
  show ?case by simp
next
  case (Cons x acts)
  show ?case
  proof (cases x)
    case (FReportError er)
    define h1 where "h1 = ReportError (userContext c) er h"
    have step: "foldl fiber_action (c, h) (x # acts) = foldl fiber_action (c, h1) acts"
      by (simp add: FReportError h1_def)
    have "h1 a = h a @ (if userContext c ErrorListCtxKey = Some (ErrorListPtr a)
                        then [ATError er] else [])"
      unfolding h1_def by (rule ReportError_at)
    then show ?thesis
      unfolding step using Cons.IH [of c h1] by (simp add: FReportError)
  next
    case (FSetUserContext u)
    then show ?thesis using Cons.IH [of "c\<lparr>userContext := u\<rparr>" h] by simp
  next
    case (FSet k v)
    then show ?thesis using Cons.IH [of "c\<lparr>respHeaders := (respHeaders c)(k \<mapsto> v)\<rparr>" h] by simp
  next
    case (FStatus code)
    then show ?thesis using Cons.IH [of "c\<lparr>respStatus := code\<rparr>" h] by simp
  next
    case (FWrite b)
    then show ?thesis using Cons.IH [of "c\<lparr>respBody := respBody c @ b\<rparr>" h] by simp
  qed
qed

lemma fiber_run_recorded':
  assumes "foldl fiber_action (c, h) acts = (c', h')"
  shows "h' a = h a @ map ATError
       (recorded_errors a (userContext c ErrorListCtxKey = Some (ErrorListPtr a)) acts)"
  using fiber_run_recorded [of c h acts a] assms by simp

lemma recorded_no_replace:
  "\<forall>u. FSetUserContext u \<notin> set acts \<Longrightarrow> recorded_errors a True acts = freported acts"
proof (induction acts)
  case Nil
  show ?case by (simp add: freported_def)
next
  case (Cons x acts)
  then show ?case by (cases x) (auto simp: freported_def)
qed

lemma fiber_run_userContext:
  "\<forall>u. FSetUserContext u \<notin> set acts \<Longrightarrow>
     userContext (fst (foldl fiber_action (c, h) acts)) = userContext c"
proof (induction acts arbitrary: c h)
  case Nil
  show ?case by simp
next
  case (Cons x acts)
  obtain c' h' where step: "fiber_action (c, h) x = (c', h')" by (cases "fiber_action (c, h) x")
  have "userContext c' = userContext c" using step Cons.prems by (cases x) auto
  then show ?case using Cons.IH [of c' h'] Cons.prems step by simp
qed

lemma fiber_installed_carries:
  "userContext (fiber_installed e ctx) ErrorListCtxKey = Some (ErrorListPtr (errorList_addr e))"
  by (simp add: fiber_installed_def WithValue_def)

lemma fiber_final_ctx:
  "f_ctx (fiber_Middleware config e next ctx h) =
     fst (foldl fiber_action (fiber_installed e ctx, h(errorList_addr e := [])) (f_actions next))"
  by (simp add: fiber_Middleware_def Let_def Next_def fiber_installed_def
      split: prod.splits fend.splits sum.splits)

lemma fiber_panic_final_heap:
  assumes "f_end next = FPanic v" "recovered_error v = Inr er"
  shows "f_heap (fiber_Middleware config e next ctx h) =
     ReportError (userContext (f_ctx (fiber_Middleware config e next ctx h))) er
       (snd (foldl fiber_action (fiber_installed e ctx, h(errorList_addr e := []))
          (f_actions next)))"
  using assms
  by (simp add: fiber_Middleware_def Let_def Next_def fiber_installed_def
      split: prod.splits fend.splits sum.splits)

lemma fiber_panic_errors:
  assumes "f_end next = FPanic v" "recovered_error v = Inr er"
  shows "f_heap (fiber_Middleware config e next ctx h) (errorList_addr e) =
     map ATError (recorded_errors (errorList_addr e) True (f_actions next))
     @ (if userContext (f_ctx (fiber_Middleware config e next ctx h)) ErrorListCtxKey
             = Some (ErrorListPtr (errorList_addr e))
        then [ATError er] else [])"
  unfolding fiber_panic_final_heap [OF assms] ReportError_at
  by (simp add: fiber_run_recorded fiber_installed_carries)

lemma fiber_final_userContext:
  assumes "\<forall>u. FSetUserContext u \<notin> set (f_actions next)"
  shows "userContext (f_ctx (fiber_Middleware config e next ctx h)) ErrorListCtxKey
       = Some (ErrorListPtr (errorList_addr e))"
  unfolding fiber_final_ctx
  by (simp add: fiber_run_userContext [OF assms] fiber_installed_carries)


lemma recovered_error_cases:
  "(\<forall>n. v \<noteq> PanicOther n) \<Longrightarrow> \<exists>er. recovered_error v = Inr er"
  by (cases v) auto

section \<open>Payloads per request\<close>

text \<open>C1, as amended: the gorilla middleware attaches exactly one Payload to the request's
  span whenever the downstream handler returns normally; the fiber middleware attaches
  exactly one Payload whenever the rest of the chain returns, or panics with an error or a
  string.\<close>

theorem one_payload_per_request:
  "(h_end next = Return \<longrightarrow>
      length (attached (g_span (Middleware config e next res req h))) = 1)
   \<and> ((\<forall>n. f_end fnext \<noteq> FPanic (PanicOther n)) \<longrightarrow>
      length (attached (f_span (fiber_Middleware config e fnext ctx h))) = 1)"
proof (intro conjI impI)
  assume "h_end next = Return"
  from gorilla_return(2) [OF this, of config e res req h]
  show "length (attached (g_span (Middleware config e next res req h))) = 1" by auto
next
  assume other: "\<forall>n. f_end fnext \<noteq> FPanic (PanicOther n)"
  show "length (attached (f_span (fiber_Middleware config e fnext ctx h))) = 1"
  proof (cases "f_end fnext")
    case (FReturn r)
    from fiber_return(2) [OF this, of config e ctx h] show ?thesis by auto
  next
    case (FPanic v)
    with other have "\<forall>n. v \<noteq> PanicOther n" by auto
    then obtain er where "recovered_error v = Inr er"
      using recovered_error_cases by blast
    from fiber_panic(2) [OF FPanic this, of config e ctx h] show ?thesis by auto
  qed
qed

theorem one_payload_per_request_witness:
  "h_end h_write_only = Return
   \<and> length (attached (g_span (Middleware ex_config ex_env h_write_only plain_writer
        (ex_request chunked_body) ex_heap))) = 1
   \<and> f_end fh_panic_string = FPanic (PanicString ''boom'')
   \<and> length (attached (f_span
        (fiber_Middleware ex_config ex_env fh_panic_string ex_fiber_ctx ex_heap))) = 1"
  using one_payload_per_request [of h_write_only ex_config ex_env plain_writer
      "ex_request chunked_body" ex_heap fh_panic_string ex_fiber_ctx]
  by (simp add: h_write_only_def fh_panic_string_def)

text \<open>The claim as stated fails: when the handler panics, the gorilla middleware, which has
  no panic barrier, attaches no Payload.\<close>

theorem gorilla_panic_no_payload:
  "h_end h_panics = Panic (PanicString ''boom'')
   \<and> length (attached (g_span (Middleware ex_config ex_env h_panics plain_writer
        (ex_request chunked_body) ex_heap))) = 0"
  by (simp add: run_defs ex_defs)

section \<open>fiber: the panic barrier\<close>

text \<open>C2, as amended: when the rest of the chain panics with an error, the fiber middleware
  attaches one Payload and then panics with that same error; when it panics with a string,
  the middleware attaches one Payload and then panics with a new error whose message is that
  string, not with the string. In both cases the panic is not suppressed.\<close>

theorem panic_reraised:
  "(f_end next = FPanic (PanicError er) \<longrightarrow>
      f_outcome (fiber_Middleware config e next ctx h) = Panicked (PanicError er)
    \<and> length (attached (f_span (fiber_Middleware config e next ctx h))) = 1)
   \<and> (f_end next = FPanic (PanicString s) \<longrightarrow>
      f_outcome (fiber_Middleware config e next ctx h) = Panicked (PanicError (errors_New s))
    \<and> length (attached (f_span (fiber_Middleware config e next ctx h))) = 1)"
proof (intro conjI impI)
  assume p: "f_end next = FPanic (PanicError er)"
  have r: "recovered_error (PanicError er) = Inr er" by simp
  show "f_outcome (fiber_Middleware config e next ctx h) = Panicked (PanicError er)"
    by (rule fiber_panic(1) [OF p r])
  from fiber_panic(2) [OF p r, of config e ctx h]
  show "length (attached (f_span (fiber_Middleware config e next ctx h))) = 1" by auto
next
  assume p: "f_end next = FPanic (PanicString s)"
  have r: "recovered_error (PanicString s) = Inr (errors_New s)" by simp
  show "f_outcome (fiber_Middleware config e next ctx h) = Panicked (PanicError (errors_New s))"
    by (rule fiber_panic(1) [OF p r])
  from fiber_panic(2) [OF p r, of config e ctx h]
  show "length (attached (f_span (fiber_Middleware config e next ctx h))) = 1" by auto
qed

theorem panic_reraised_witness:
  "f_end fh_panic_error = FPanic (PanicError (GoError ''boom''))
   \<and> f_outcome (fiber_Middleware ex_config ex_env fh_panic_error ex_fiber_ctx ex_heap)
       = Panicked (PanicError (GoError ''boom''))
   \<and> length (attached (f_span
        (fiber_Middleware ex_config ex_env fh_panic_error ex_fiber_ctx ex_heap))) = 1"
  using panic_reraised [of fh_panic_error "GoError ''boom''" ex_config ex_env ex_fiber_ctx ex_heap]
  by (simp add: fh_panic_error_def)

text \<open>The claim as stated fails: a panic with the string \<^verbatim>\<open>"boom"\<close> leaves the middleware
  as a panic with an error value, which is not the value the handler panicked with.\<close>

theorem string_panic_changed:
  "f_end fh_panic_string = FPanic (PanicString ''boom'')
   \<and> f_outcome (fiber_Middleware ex_config ex_env fh_panic_string ex_fiber_ctx ex_heap)
       = Panicked (PanicError (GoError ''boom''))
   \<and> f_outcome (fiber_Middleware ex_config ex_env fh_panic_string ex_fiber_ctx ex_heap)
       \<noteq> Panicked (PanicString ''boom'')"
  by (simp add: run_defs ex_defs)

text \<open>C3, as amended: when the rest of the chain panics with an error or a string, the
  Payload built for that request has status 500, whatever status was set before. Its error
  list is the errors reported while the user context carried the request's error list,
  followed by exactly one entry derived from the panic value if the user context carries
  that list when the panic is recovered, and by nothing otherwise. For a handler that never
  replaces the user context, the list is all the errors it reported followed by exactly one
  entry derived from the panic value.\<close>

theorem panic_payload_500:
  assumes "f_end next = FPanic v"
    and "recovered_error v = Inr er"
  shows "\<exists>p. attached (f_span (fiber_Middleware config e next ctx h)) = [p]
           \<and> p_status_code p = 500
           \<and> p_errors p =
               map ATError (recorded_errors (errorList_addr e) True (f_actions next))
               @ (if userContext (f_ctx (fiber_Middleware config e next ctx h)) ErrorListCtxKey
                       = Some (ErrorListPtr (errorList_addr e))
                  then [ATError er] else [])
           \<and> ((\<forall>u. FSetUserContext u \<notin> set (f_actions next)) \<longrightarrow>
                 p_errors p = map ATError (freported (f_actions next)) @ [ATError er])"
proof -
  obtain p where p: "attached (f_span (fiber_Middleware config e next ctx h)) = [p]"
    "p_status_code p = 500"
    "p_errors p = f_heap (fiber_Middleware config e next ctx h) (errorList_addr e)"
    using fiber_panic(2) [OF assms, of config e ctx h] by auto
  have exact: "p_errors p =
      map ATError (recorded_errors (errorList_addr e) True (f_actions next))
      @ (if userContext (f_ctx (fiber_Middleware config e next ctx h)) ErrorListCtxKey
              = Some (ErrorListPtr (errorList_addr e))
         then [ATError er] else [])"
    unfolding p(3) by (rule fiber_panic_errors [OF assms])
  have "p_errors p = map ATError (freported (f_actions next)) @ [ATError er]"
    if "\<forall>u. FSetUserContext u \<notin> set (f_actions next)"
    unfolding exact using that
    by (simp add: recorded_no_replace fiber_final_userContext)
  with p(1,2) exact show ?thesis by blast
qed

theorem panic_payload_500_witness:
  "f_end fh_report_then_panic = FPanic (PanicString ''boom'')
   \<and> recovered_error (PanicString ''boom'') = Inr (GoError ''boom'')
   \<and> map p_status_code (attached (f_span
        (fiber_Middleware ex_config ex_env fh_report_then_panic ex_fiber_ctx ex_heap))) = [500]
   \<and> map p_errors (attached (f_span
        (fiber_Middleware ex_config ex_env fh_report_then_panic ex_fiber_ctx ex_heap)))
       = [[ATError (GoError ''e1''), ATError (GoError ''boom'')]]"
proof -
  have hyps: "f_end fh_report_then_panic = FPanic (PanicString ''boom'')"
    "recovered_error (PanicString ''boom'') = Inr (GoError ''boom'')"
    by (simp_all add: fh_report_then_panic_def errors_New_def)
  have acts: "\<forall>u. FSetUserContext u \<notin> set (f_actions fh_report_then_panic)"
    "freported (f_actions fh_report_then_panic) = [GoError ''e1'']"
    by (simp_all add: fh_report_then_panic_def freported_def)
  show ?thesis
    using hyps acts panic_payload_500 [OF hyps, of ex_config ex_env ex_fiber_ctx ex_heap]
    by auto
qed

text \<open>The claim as stated fails: a handler that replaces the user context by one without the
  error list and then panics leaves the Payload with an empty error list.\<close>

theorem detached_context_drops_panic_entry:
  "f_end fh_detached = FPanic (PanicString ''boom'')
   \<and> map p_errors (attached (f_span
        (fiber_Middleware ex_config ex_env fh_detached ex_fiber_ctx ex_heap))) = [[]]"
  by (simp add: run_defs ex_defs)

section \<open>fiber: response headers\<close>



section \<open>Redaction is idempotent\<close>

lemma parse_string_quote:
  "CHR 0x22 \<notin> set s \<Longrightarrow> parse_string (s @ CHR 0x22 # rest) = Some (s, rest)"
  by (induction s) auto

lemma parse_string_sound:
  "parse_string r = Some (s, r') \<Longrightarrow> CHR 0x22 \<notin> set s"
  by (induction r arbitrary: s r') (auto split: if_splits option.splits)

lemma numchar_not_delim:
  "numchar c \<Longrightarrow> c \<noteq> CHR 0x22 \<and> c \<noteq> CHR ''['' \<and> c \<noteq> CHR ''{''"
  by (auto simp: numchar_def)

lemma delim_not_numchar:
  "\<not> numchar (CHR '','')" "\<not> numchar (CHR '']'')" "\<not> numchar (CHR ''}'')"
  by (simp_all add: numchar_def)

lemma takeWhile_lexeme:
  assumes "list_all P s" "rest = [] \<or> \<not> P (hd rest)"
  shows "takeWhile P (s @ rest) = s" "dropWhile P (s @ rest) = rest"
  using assms by (induction s) (auto simp: takeWhile_eq_Nil_iff dropWhile_eq_self_iff)

lemma parse_num:
  assumes "s \<noteq> []" "list_all numchar s" "rest = [] \<or> \<not> numchar (hd rest)"
  shows "parse_value (Suc n) (s @ rest) = Some (JNum s, rest)"
proof -
  obtain c s' where s: "s = c # s'" using assms(1) by (cases s) auto
  then have c: "numchar c" using assms(2) by simp
  have "parse_value (Suc n) (c # s' @ rest)
      = Some (JNum (takeWhile numchar (s @ rest)), dropWhile numchar (s @ rest))"
    using numchar_not_delim [OF c] c by (simp add: s)
  then show ?thesis using takeWhile_lexeme [OF assms(2,3)] by (simp add: s)
qed

lemma print_head:
  "wf_json j \<Longrightarrow> print_json j \<noteq> [] \<and> hd (print_json j) \<noteq> CHR '']'' \<and> hd (print_json j) \<noteq> CHR ''}''"
  by (cases j) (auto simp: quote_def numchar_def neq_Nil_conv)

lemma parse_roundtrip:
  "wf_json j \<longrightarrow> (\<forall>n rest. length (print_json j) < n \<and> (rest = [] \<or> \<not> numchar (hd rest))
       \<longrightarrow> parse_value n (print_json j @ rest) = Some (j, rest))"
  "xs \<noteq> [] \<and> wf_elems xs \<longrightarrow> (\<forall>n rest. length (print_elems xs) < n
       \<longrightarrow> parse_elems n (print_elems xs @ rest) = Some (xs, rest))"
  "kvs \<noteq> [] \<and> wf_members kvs \<longrightarrow> (\<forall>n rest. length (print_members kvs) < n
       \<longrightarrow> parse_members n (print_members kvs @ rest) = Some (kvs, rest))"
proof (induction j and xs and kvs rule: print_json_print_elems_print_members.induct)
  case 1
  show ?case
  proof (intro impI allI)
    fix n rest assume "length (print_json JNull) < n \<and> (rest = [] \<or> \<not> numchar (hd rest))"
    then obtain m where "n = Suc m" by (cases n) auto
    then show "parse_value n (print_json JNull @ rest) = Some (JNull, rest)"
      by (simp add: numchar_def)
  qed
next
  case (2 b)
  show ?case
  proof (intro impI allI)
    fix n rest assume "length (print_json (JBool b)) < n \<and> (rest = [] \<or> \<not> numchar (hd rest))"
    then obtain m where "n = Suc m" by (cases n) auto
    then show "parse_value n (print_json (JBool b) @ rest) = Some (JBool b, rest)"
      by (simp add: numchar_def)
  qed
next
  case (3 s)
  show ?case
  proof (intro impI allI)
    fix n rest
    assume wf: "wf_json (JNum s)"
      and "length (print_json (JNum s)) < n \<and> (rest = [] \<or> \<not> numchar (hd rest))"
    then obtain m where "n = Suc m" and "rest = [] \<or> \<not> numchar (hd rest)" by (cases n) auto
    then show "parse_value n (print_json (JNum s) @ rest) = Some (JNum s, rest)"
      using wf parse_num [of s rest m] by simp
  qed
next
  case (4 s)
  show ?case
  proof (intro impI allI)
    fix n rest
    assume wf: "wf_json (JStr s)"
      and "length (print_json (JStr s)) < n \<and> (rest = [] \<or> \<not> numchar (hd rest))"
    then obtain m where "n = Suc m" by (cases n) auto
    then show "parse_value n (print_json (JStr s) @ rest) = Some (JStr s, rest)"
      using wf parse_string_quote [of s rest] by (simp add: quote_def)
  qed
next
  case (5 xs)
  show ?case
  proof (intro impI allI)
    fix n rest
    assume wf: "wf_json (JArr xs)"
      and len: "length (print_json (JArr xs)) < n \<and> (rest = [] \<or> \<not> numchar (hd rest))"
    then obtain m where n: "n = Suc m" by (cases n) auto
    show "parse_value n (print_json (JArr xs) @ rest) = Some (JArr xs, rest)"
    proof (cases "xs = []")
      case True
      then show ?thesis by (simp add: n)
    next
      case False
      then obtain x xs' where xs: "xs = x # xs'" by (cases xs) auto
      have hd: "print_elems xs @ rest \<noteq> [] \<and> hd (print_elems xs @ rest) \<noteq> CHR '']''"
        using wf print_head [of x] by (simp add: xs)
      have "parse_elems m (print_elems xs @ rest) = Some (xs, rest)"
        using 5 False wf len n by simp
      then show ?thesis using False hd by (simp add: n)
    qed
  qed
next
  case (6 kvs)
  show ?case
  proof (intro impI allI)
    fix n rest
    assume wf: "wf_json (JObj kvs)"
      and len: "length (print_json (JObj kvs)) < n \<and> (rest = [] \<or> \<not> numchar (hd rest))"
    then obtain m where n: "n = Suc m" by (cases n) auto
    show "parse_value n (print_json (JObj kvs) @ rest) = Some (JObj kvs, rest)"
    proof (cases "kvs = []")
      case True
      then show ?thesis by (simp add: n)
    next
      case False
      then obtain k v kvs' where kvs: "kvs = (k, v) # kvs'" by (cases kvs) auto
      have hd: "print_members kvs @ rest \<noteq> [] \<and> hd (print_members kvs @ rest) \<noteq> CHR ''}''"
        by (simp add: kvs quote_def)
      have "parse_members m (print_members kvs @ rest) = Some (kvs, rest)"
        using 6 False wf len n by simp
      then show ?thesis using False hd by (simp add: n)
    qed
  qed
next
  case 7
  show ?case by simp
next
  case (8 x xs)
  show ?case
  proof (intro impI allI)
    fix n rest
    assume wf: "x # xs \<noteq> [] \<and> wf_elems (x # xs)"
      and len: "length (print_elems (x # xs)) < n"
    then obtain m where n: "n = Suc m" by (cases n) auto
    show "parse_elems n (print_elems (x # xs) @ rest) = Some (x # xs, rest)"
    proof (cases "xs = []")
      case True
      have "parse_value m (print_json x @ CHR '']'' # rest) = Some (x, CHR '']'' # rest)"
        using 8(1) wf len n True by (simp add: delim_not_numchar)
      then show ?thesis using True by (simp add: n)
    next
      case False
      have "parse_value m (print_json x @ CHR '','' # print_elems xs @ rest)
          = Some (x, CHR '','' # print_elems xs @ rest)"
        using 8(1) wf len n False by (simp add: delim_not_numchar)
      moreover have "parse_elems m (print_elems xs @ rest) = Some (xs, rest)"
        using 8(2) wf len n False by simp
      ultimately show ?thesis using False by (simp add: n)
    qed
  qed
next
  case 9
  show ?case by simp
next
  case (10 k v kvs)
  show ?case
  proof (intro impI allI)
    fix n rest
    assume wf: "(k, v) # kvs \<noteq> [] \<and> wf_members ((k, v) # kvs)"
      and len: "length (print_members ((k, v) # kvs)) < n"
    then obtain m where n: "n = Suc m" by (cases n) auto
    have key: "parse_string (k @ CHR 0x22 # t) = Some (k, t)" for t
      using wf parse_string_quote by simp
    show "parse_members n (print_members ((k, v) # kvs) @ rest) = Some ((k, v) # kvs, rest)"
    proof (cases "kvs = []")
      case True
      have "parse_value m (print_json v @ CHR ''}'' # rest) = Some (v, CHR ''}'' # rest)"
        using 10(1) wf len n True by (simp add: delim_not_numchar quote_def)
      then show ?thesis using True key by (simp add: n quote_def)
    next
      case False
      have "parse_value m (print_json v @ CHR '','' # print_members kvs @ rest)
          = Some (v, CHR '','' # print_members kvs @ rest)"
        using 10(1) wf len n False by (simp add: delim_not_numchar quote_def)
      moreover have "parse_members m (print_members kvs @ rest) = Some (kvs, rest)"
        using 10(2) wf len n False by (simp add: quote_def)
      ultimately show ?thesis using False key by (simp add: n quote_def)
    qed
  qed
qed

lemma parse_json_print:
  assumes "wf_json j"
  shows "parse_json (print_json j) = Some j"
proof -
  have "parse_value (Suc (length (print_json j))) (print_json j @ []) = Some (j, [])"
    using parse_roundtrip(1) [of j] assms by blast
  then show ?thesis by (simp add: parse_json_def del: parse_value.simps)
qed

lemma parse_sound:
  "\<forall>j r. parse_value n s = Some (j, r) \<longrightarrow> wf_json j"
  "\<forall>xs r. parse_elems n1 s1 = Some (xs, r) \<longrightarrow> wf_elems xs"
  "\<forall>kvs r. parse_members n2 s2 = Some (kvs, r) \<longrightarrow> wf_members kvs"
proof (induction n s and n1 s1 and n2 s2 rule: parse_value_parse_elems_parse_members.induct)
  case (2 n s)
  show ?case
  proof (intro allI impI)
    fix j r assume p: "parse_value (Suc n) s = Some (j, r)"
    then obtain c t where s: "s = c # t" by (cases s) auto
    show "wf_json j"
    proof (cases "c = CHR 0x22")
      case True
      then show ?thesis using p s parse_string_sound by (auto split: option.splits)
    next
      case nq: False
      show ?thesis
      proof (cases "c = CHR ''[''")
        case True
        then show ?thesis using p s nq 2(1) by (auto split: option.splits if_splits)
      next
        case nb: False
        show ?thesis
        proof (cases "c = CHR ''{''")
          case True
          then show ?thesis using p s nq nb 2(2) by (auto split: option.splits if_splits)
        next
          case nc: False
          show ?thesis
          proof (cases "numchar c")
            case True
            then have "j = JNum (takeWhile numchar s)" using p s nq nb nc by simp
            moreover have "takeWhile numchar s \<noteq> []" using True s by simp
            moreover have "list_all numchar (takeWhile numchar s)"
              by (simp add: list_all_iff) (meson set_takeWhileD)
            ultimately show ?thesis by simp
          next
            case False
            then show ?thesis using p s nq nb nc by (auto split: if_splits)
          qed
        qed
      qed
    qed
  qed
next
  case (4 n s)
  then show ?case by (auto split: option.splits list.splits if_splits)
next
  case (6 n s)
  then show ?case
    by (auto split: option.splits list.splits if_splits dest: parse_string_sound)
qed simp_all

lemma parse_json_wf: "parse_json b = Some j \<Longrightarrow> wf_json j"
  using parse_sound(1) [of "Suc (length b)" b]
  by (auto simp: parse_json_def simp del: parse_value.simps split: option.splits if_splits)

lemma redact_wf:
  "wf_json j \<longrightarrow> wf_json (redact_at p j)"
  "wf_members kvs \<longrightarrow> wf_members (redact_members k p1 kvs)"
  "wf_elems xs \<longrightarrow> wf_elems (redact_elems i p2 xs)"
  by (induction p j and k p1 kvs and i p2 xs rule: redact_at_redact_members_redact_elems.induct)
     (simp_all add: redaction_marker_def)

lemma redact_at_leaf:
  "redact_at p JNull = (if p = [] then JStr redaction_marker else JNull)"
  "redact_at p (JBool b) = (if p = [] then JStr redaction_marker else JBool b)"
  "redact_at p (JNum s) = (if p = [] then JStr redaction_marker else JNum s)"
  "redact_at p (JStr s) = (if p = [] then JStr redaction_marker else JStr s)"
  by (cases p; cases "hd p"; simp)+

lemma redact_at_arr:
  "redact_at p (JArr xs) =
     (case p of [] \<Rightarrow> JStr redaction_marker
      | Index i # p' \<Rightarrow> JArr (redact_elems i p' xs)
      | Key k # p' \<Rightarrow> JArr xs)"
  by (cases p; cases "hd p"; simp)

lemma redact_at_obj:
  "redact_at p (JObj kvs) =
     (case p of [] \<Rightarrow> JStr redaction_marker
      | Key k # p' \<Rightarrow> JObj (redact_members k p' kvs)
      | Index i # p' \<Rightarrow> JObj kvs)"
  by (cases p; cases "hd p"; simp)

lemma redact_commute:
  "\<forall>p q. redact_at p (redact_at q j) = redact_at q (redact_at p j)"
  "\<forall>i i' p q. redact_elems i p (redact_elems i' q xs) = redact_elems i' q (redact_elems i p xs)"
  "\<forall>k k' p q. redact_members k p (redact_members k' q kvs)
      = redact_members k' q (redact_members k p kvs)"
proof (induction j and xs and kvs rule: wf_json_wf_elems_wf_members.induct)
  case (3 xs)
  then show ?case
    by (auto simp: redact_at_arr redact_at_leaf split: list.splits step.splits)
next
  case (4 kvs)
  then show ?case
    by (auto simp: redact_at_obj redact_at_leaf split: list.splits step.splits)
next
  case (7 x xs)
  show ?case
  proof (intro allI)
    fix i i' p q
    show "redact_elems i p (redact_elems i' q (x # xs))
        = redact_elems i' q (redact_elems i p (x # xs))"
      using 7 by (cases i; cases i') simp_all
  qed
next
  case (9 k v kvs)
  then show ?case by simp
qed (simp_all add: redact_at_leaf)

lemma redact_idem:
  "\<forall>p. redact_at p (redact_at p j) = redact_at p j"
  "\<forall>i p. redact_elems i p (redact_elems i p xs) = redact_elems i p xs"
  "\<forall>k p. redact_members k p (redact_members k p kvs) = redact_members k p kvs"
proof (induction j and xs and kvs rule: wf_json_wf_elems_wf_members.induct)
  case (3 xs)
  then show ?case
    by (auto simp: redact_at_arr redact_at_leaf split: list.splits step.splits)
next
  case (4 kvs)
  then show ?case
    by (auto simp: redact_at_obj redact_at_leaf split: list.splits step.splits)
next
  case (7 x xs)
  show ?case
  proof (intro allI)
    fix i p
    show "redact_elems i p (redact_elems i p (x # xs)) = redact_elems i p (x # xs)"
      using 7 by (cases i) simp_all
  qed
next
  case (9 k v kvs)
  then show ?case by simp
qed (simp_all add: redact_at_leaf)

lemma fold_commute_step:
  assumes "\<And>x y s. f x (f y s) = f y (f x s)"
  shows "f x (fold f xs s) = fold f xs (f x s)"
  by (induction xs arbitrary: s) (simp_all add: assms)

lemma fold_idem:
  assumes comm: "\<And>x y s. f x (f y s) = f y (f x s)"
    and idem: "\<And>x s. f x (f x s) = f x s"
  shows "fold f xs (fold f xs s) = fold f xs s"
proof (induction xs arbitrary: s)
  case Nil
  show ?case by simp
next
  case (Cons x xs)
  have "fold f (x # xs) (fold f (x # xs) s) = fold f xs (f x (fold f xs (f x s)))" by simp
  also have "\<dots> = fold f xs (fold f xs (f x (f x s)))"
    by (simp add: fold_commute_step [of f, OF comm])
  also have "\<dots> = fold f xs (f x s)" by (simp add: idem Cons.IH)
  finally show ?case by simp
qed

lemma redact_json_idem: "redact_json paths (redact_json paths j) = redact_json paths j"
  unfolding redact_json_def
  by (rule fold_idem) (simp_all add: redact_commute redact_idem)

lemma fold_redact_wf: "wf_json j \<Longrightarrow> wf_json (fold redact_at ps j)"
  by (induction ps arbitrary: j) (simp_all add: redact_wf)

lemma redact_json_wf: "wf_json j \<Longrightarrow> wf_json (redact_json paths j)"
  by (simp add: redact_json_def fold_redact_wf)

text \<open>C9: structured-field redaction is idempotent on the bytes of a captured body:
  redacting a body twice with the same paths gives byte for byte what redacting it once
  gives, whether the body parses as structured data or not.\<close>

theorem redaction_idempotent:
  "redact_body paths (redact_body paths b) = redact_body paths b"
proof (cases "parse_json b")
  case None
  then show ?thesis by (simp add: redact_body_def)
next
  case (Some j)
  then have "wf_json (redact_json paths j)" by (simp add: parse_json_wf redact_json_wf)
  then have "parse_json (print_json (redact_json paths j)) = Some (redact_json paths j)"
    by (rule parse_json_print)
  then show ?thesis using Some by (simp add: redact_body_def redact_json_idem)
qed

theorem redaction_idempotent_witness:
  "redact_body [''$.password''] (redact_body [''$.password''] ex_json_body)
     = ''{\"password\":\"[CLIENT_REDACTED]\",\"username\":\"john\"}''"
proof -
  have "redact_body [''$.password''] ex_json_body
      = ''{\"password\":\"[CLIENT_REDACTED]\",\"username\":\"john\"}''"
    by (simp add: ex_json_body_def redact_body_def redact_json_def parse_json_def
        parse_path_def numchar_def quote_def List.map_filter_simps redaction_marker_def)
  then show ?thesis
    using redaction_idempotent [of "[''$.password'']" ex_json_body] by simp
qed

end
